theory Spec2Isabelle
  imports Main "HOL-Library.Word" "HOL-Library.Monad_Syntax"
begin

section \<open>The pool allocator of \<open>lwe::mem::pool\<close> over a flat word-addressed memory\<close>

text \<open>
  The allocator of \<^verbatim>\<open>pool.inl\<close> works on raw memory: a block is one aligned
  allocation whose first four pointer-sized words are the fields of \<^verbatim>\<open>struct block\<close>
  (\<^verbatim>\<open>from\<close>, \<^verbatim>\<open>curr\<close>, \<^verbatim>\<open>next\<close>, \<^verbatim>\<open>prev\<close>, in declaration order) and whose chunks
  are reached by pointer arithmetic only. The model keeps that: memory is a function from
  byte addresses to pointer-sized words, a block is its address, and every field access is a
  load or a store at \<open>address + offset\<close>. Pointers and \<^verbatim>\<open>size_t\<close> are 64-bit words
  (the source targets x64: \<^verbatim>\<open>_aligned_malloc\<close>, "4 pointer = 32 byte in x64"), so pointer
  arithmetic wraps as the machine's does.

  An access is defined only inside a live allocation of the raw memory backend; any other
  access (through a null pointer, through a stale or misread pointer) is a fault, the value
  \<open>None\<close> of every operation. Cells are keyed by their byte address and are independent,
  which is exact as long as all accessed addresses agree modulo the pointer size.

  The operations are those of one thread, in the order given. Objects are of type
  \<^verbatim>\<open>void\<close> (the default template argument), for which \<^verbatim>\<open>construct\<close>, \<^verbatim>\<open>destruct\<close> and
  \<^verbatim>\<open>release\<close> run no constructor and no destructor. The destructor of the pool and the
  thread-local \<^verbatim>\<open>statics\<close> facade, which only forwards to one pool, are left out.
\<close>

type_synonym addr = "64 word"
type_synonym size_t = "64 word"

text \<open>\<^verbatim>\<open>sizeof(void*)\<close> and \<^verbatim>\<open>sizeof(block)\<close> on x64, and the offsets of the fields of
  \<^verbatim>\<open>struct block { pool* from; uint8_t* curr; block* next; block* prev; }\<close>.\<close>

definition PTR :: size_t where "PTR = 8"
definition SIZEOF_BLOCK :: size_t where "SIZEOF_BLOCK = 32"

definition from_of :: "addr \<Rightarrow> addr" where "from_of b = b"
definition curr_of :: "addr \<Rightarrow> addr" where "curr_of b = b + 8"
definition next_of :: "addr \<Rightarrow> addr" where "next_of b = b + 16"
definition prev_of :: "addr \<Rightarrow> addr" where "prev_of b = b + 24"

text \<open>The members of \<^verbatim>\<open>class pool\<close>. \<open>idle\<close> is the deque of idle blocks (front first),
  \<open>all_blks\<close> the unordered set \<^verbatim>\<open>all\<close>, \<open>gc\<close> the concurrent queue (front first).\<close>

record pool =
  ALIGNMENT :: size_t
  SIZE :: size_t
  COUNT :: size_t
  ALLOCTATE :: size_t
  top_blk :: addr
  idle :: "addr list"
  all_blks :: "addr set"
  gc :: "addr list"

text \<open>The world: the memory, the live allocations of the raw memory backend (base address
  and byte size), and the pool objects by their address (the value a block's \<^verbatim>\<open>from\<close>
  field holds).\<close>

record world =
  mem :: "addr \<Rightarrow> addr"
  heap :: "(addr \<times> nat) list"
  pools :: "addr \<Rightarrow> pool option"

subsection \<open>Loads and stores\<close>

fun in_heap :: "(addr \<times> nat) list \<Rightarrow> addr \<Rightarrow> bool" where
  "in_heap [] a = False"
| "in_heap ((b, n) # rs) a =
     (if unat b \<le> unat a \<and> unat a + 8 \<le> unat b + n then True else in_heap rs a)"

definition load :: "world \<Rightarrow> addr \<Rightarrow> addr option" where
  "load w a = (if in_heap (heap w) a then Some (mem w a) else None)"

definition store :: "world \<Rightarrow> addr \<Rightarrow> addr \<Rightarrow> world option" where
  "store w a v = (if in_heap (heap w) a then Some (w\<lparr>mem := (mem w)(a := v)\<rparr>) else None)"

subsection \<open>The alignment utility and the pool constructor\<close>

text \<open>Modelled from the spec: \<^verbatim>\<open>util::aligner::boundary\<close> and \<^verbatim>\<open>util::aligner::adjust\<close>
  (header \<^verbatim>\<open>aligner.hh\<close>) are not among the sources. The spec gives them as
  \<open>boundary(n)\<close>: the power of two that is at least \<open>n\<close> (the nearest one), and
  \<open>adjust(value, unit)\<close>: \<open>value\<close> rounded up to a multiple of \<open>unit\<close>.\<close>

primrec boundary_from :: "nat \<Rightarrow> nat \<Rightarrow> nat \<Rightarrow> nat" where
  "boundary_from 0 p n = p"
| "boundary_from (Suc k) p n = (if n \<le> p then p else boundary_from k (2 * p) n)"

definition boundary :: "size_t \<Rightarrow> size_t" where
  "boundary n = of_nat (boundary_from 64 1 (unat n))"

definition adjust :: "size_t \<Rightarrow> size_t \<Rightarrow> size_t" where
  "adjust v u = (if unat v mod unat u = 0 then v else v + (u - of_nat (unat v mod unat u)))"

text \<open>The constructor \<^verbatim>\<open>pool::pool(chunk, count, align)\<close>. \<^verbatim>\<open>config::DEF_CACHE\<close> is not
  among the sources and is a parameter.\<close>

definition pool_ctor :: "size_t \<Rightarrow> size_t \<Rightarrow> size_t \<Rightarrow> size_t \<Rightarrow> pool" where
  "pool_ctor DEF_CACHE chunk count align =
     (let A = boundary align;
          S = adjust (chunk + PTR) align;
          C = adjust count DEF_CACHE
      in \<lparr> ALIGNMENT = A, SIZE = S, COUNT = C,
           ALLOCTATE = adjust (adjust (SIZEOF_BLOCK + PTR) A + (S * C) - PTR) A,
           top_blk = 0, idle = [], all_blks = {}, gc = [] \<rparr>)"

subsection \<open>\<^verbatim>\<open>struct pool::block\<close>\<close>

text \<open>The loop of \<^verbatim>\<open>block::initialize\<close>: \<open>n\<close> iterations, each reading
  \<^verbatim>\<open>parent->SIZE\<close> and writing the back-reference and the next-chunk pointer of the chunk at
  \<open>cursor\<close>; it yields the final cursor. The bound \<^verbatim>\<open>count - 1\<close> is computed once, before
  the loop, in \<^verbatim>\<open>size_t\<close>.\<close>

primrec initialize_loop :: "nat \<Rightarrow> addr \<Rightarrow> addr \<Rightarrow> addr \<Rightarrow> world \<Rightarrow> (world \<times> addr) option" where
  "initialize_loop 0 this parent cursor w = Some (w, cursor)"
| "initialize_loop (Suc n) this parent cursor w =
     do { p \<leftarrow> pools w parent;
          let nxt = cursor + SIZE p;
          w1 \<leftarrow> store w cursor this;
          w2 \<leftarrow> store w1 (cursor + PTR) nxt;
          initialize_loop n this parent nxt w2 }"

definition block_initialize :: "world \<Rightarrow> addr \<Rightarrow> addr \<Rightarrow> size_t \<Rightarrow> size_t \<Rightarrow> world option" where
  "block_initialize w this parent count alignment =
     do { w1 \<leftarrow> store w (from_of this) parent;
          w2 \<leftarrow> store w1 (next_of this) 0;
          w3 \<leftarrow> store w2 (prev_of this) 0;
          let cursor = this + alignment - PTR;
          w4 \<leftarrow> store w3 (curr_of this) cursor;
          (w5, cursor') \<leftarrow> initialize_loop (unat (count - 1)) this parent cursor w4;
          w6 \<leftarrow> store w5 cursor' this;
          store w6 (cursor' + PTR) 0 }"

definition block_get :: "world \<Rightarrow> addr \<Rightarrow> (world \<times> addr) option" where
  "block_get w this =
     do { c \<leftarrow> load w (curr_of this);
          if c = 0 then Some (w, 0)
          else do { n \<leftarrow> load w (c + PTR);
                    w1 \<leftarrow> store w (curr_of this) n;
                    Some (w1, c) } }"

definition block_set :: "world \<Rightarrow> addr \<Rightarrow> addr \<Rightarrow> world option" where
  "block_set w this inp =
     (if inp = 0 then Some w
      else do { c \<leftarrow> load w (curr_of this);
                w1 \<leftarrow> store w (inp + PTR) c;
                store w1 (curr_of this) inp })"

subsection \<open>\<^verbatim>\<open>class pool\<close>\<close>

definition put_pool :: "world \<Rightarrow> addr \<Rightarrow> pool \<Rightarrow> world" where
  "put_pool w this p = w\<lparr>pools := (pools w)(this := Some p)\<rparr>"

text \<open>\<^verbatim>\<open>allocator::free\<close>: the allocation with this base address is no longer live.\<close>

definition free_raw :: "world \<Rightarrow> addr \<Rightarrow> world" where
  "free_raw w b = w\<lparr>heap := filter (\<lambda>r. fst r \<noteq> b) (heap w)\<rparr>"

text \<open>\<^verbatim>\<open>pool::setup\<close>. The result of \<^verbatim>\<open>_aligned_malloc(ALLOCTATE, ALIGNMENT)\<close> is the
  parameter \<open>fresh\<close> (null when the backend fails); the memory it returns keeps whatever
  content it had.\<close>

definition pool_setup :: "world \<Rightarrow> addr \<Rightarrow> addr \<Rightarrow> (world \<times> addr) option" where
  "pool_setup w this fresh =
     do { p \<leftarrow> pools w this;
          if fresh \<noteq> 0 then
            do { let w1 = w\<lparr>heap := (fresh, unat (ALLOCTATE p)) # heap w\<rparr>;
                 w2 \<leftarrow> block_initialize w1 fresh this (COUNT p) (ALIGNMENT p);
                 p2 \<leftarrow> pools w2 this;
                 Some (put_pool w2 this (p2\<lparr>all_blks := insert fresh (all_blks p2)\<rparr>), fresh) }
          else Some (w, 0) }"

text \<open>The second half of \<^verbatim>\<open>pool::construct\<close>, from \<^verbatim>\<open>if (ptr == nullptr)\<close> on. The
  requested type is \<^verbatim>\<open>void\<close> (the default), so no object is constructed in the chunk.\<close>

definition construct_take :: "world \<Rightarrow> addr \<Rightarrow> addr \<Rightarrow> (world \<times> addr) option" where
  "construct_take w this ptr =
     do { (w', ptr') \<leftarrow>
            (if ptr = 0 then
               do { p \<leftarrow> pools w this;
                    (w1, c) \<leftarrow> block_get w (top_blk p);
                    cur \<leftarrow> load w1 (curr_of (top_blk p));
                    if cur = 0 then
                      do { n \<leftarrow> load w1 (next_of (top_blk p));
                           if n \<noteq> 0 then
                             do { let w2 = put_pool w1 this (p\<lparr>top_blk := n\<rparr>);
                                  pv \<leftarrow> load w2 (prev_of n);
                                  w3 \<leftarrow> store w2 (next_of pv) 0;
                                  w4 \<leftarrow> store w3 (prev_of n) 0;
                                  Some (w4, c) }
                           else Some (put_pool w1 this (p\<lparr>top_blk := 0\<rparr>), c) }
                    else Some (w1, c) }
             else Some (w, ptr));
          Some (w', ptr' + PTR) }"

text \<open>\<^verbatim>\<open>pool::construct\<close>: it returns the new world and the user-visible pointer.\<close>

definition construct :: "world \<Rightarrow> addr \<Rightarrow> addr \<Rightarrow> (world \<times> addr) option" where
  "construct w this fresh =
     do { p \<leftarrow> pools w this;
          if top_blk p = 0 then
            (if idle p \<noteq> [] then
               construct_take (put_pool w this (p\<lparr>top_blk := hd (idle p), idle := tl (idle p)\<rparr>)) this 0
             else
               (case gc p of
                  [] \<Rightarrow>
                    do { (w1, b) \<leftarrow> pool_setup w this fresh;
                         p1 \<leftarrow> pools w1 this;
                         let w2 = put_pool w1 this (p1\<lparr>top_blk := b\<rparr>);
                         if b = 0 then Some (w2, 0) else construct_take w2 this 0 }
                | g # gs \<Rightarrow> construct_take (put_pool w this (p\<lparr>gc := gs\<rparr>)) this g))
          else construct_take w this 0 }"

text \<open>\<^verbatim>\<open>pool::recycle\<close>.\<close>

definition recycle :: "world \<Rightarrow> addr \<Rightarrow> addr \<Rightarrow> world option" where
  "recycle w this inp =
     do { parent \<leftarrow> load w inp;
          c \<leftarrow> load w (curr_of parent);
          w1 \<leftarrow>
            (if c = 0 then
               do { p \<leftarrow> pools w this;
                    wa \<leftarrow> (if top_blk p \<noteq> 0 then store w (prev_of (top_blk p)) parent else Some w);
                    wb \<leftarrow> store wa (next_of parent) (top_blk p);
                    wc \<leftarrow> store wb (prev_of parent) 0;
                    Some (put_pool wc this (p\<lparr>top_blk := parent\<rparr>)) }
             else Some w);
          w2 \<leftarrow> block_set w1 parent inp;
          c' \<leftarrow> load w2 (curr_of parent);
          if c' = parent + SIZEOF_BLOCK then
            do { p \<leftarrow> pools w2 this;
                 if parent = top_blk p then Some w2
                 else
                   do { n \<leftarrow> load w2 (next_of parent);
                        w3 \<leftarrow>
                          (if n \<noteq> 0 then
                             do { pv \<leftarrow> load w2 (prev_of parent);
                                  wa \<leftarrow> store w2 (prev_of n) pv;
                                  store wa (next_of parent) 0 }
                           else Some w2);
                        pv' \<leftarrow> load w3 (prev_of parent);
                        w4 \<leftarrow>
                          (if pv' \<noteq> 0 then
                             do { n' \<leftarrow> load w3 (next_of parent);
                                  wa \<leftarrow> store w3 (next_of pv') n';
                                  store wa (prev_of parent) 0 }
                           else Some w3);
                        p' \<leftarrow> pools w4 this;
                        Some (put_pool w4 this (p'\<lparr>idle := idle p' @ [parent]\<rparr>)) } }
          else Some w2 }"

text \<open>The loop \<^verbatim>\<open>while(gc.try_pop(ptr)) recycle(ptr)\<close> of \<^verbatim>\<open>pool::destruct\<close>, with the
  number of iterations as fuel; \<^verbatim>\<open>destruct\<close> gives it the length of the queue, which is
  enough, since \<^verbatim>\<open>recycle\<close> pushes nothing.\<close>

primrec drain_recycle :: "nat \<Rightarrow> world \<Rightarrow> addr \<Rightarrow> world option" where
  "drain_recycle 0 w this = Some w"
| "drain_recycle (Suc k) w this =
     do { p \<leftarrow> pools w this;
          case gc p of
            [] \<Rightarrow> Some w
          | g # gs \<Rightarrow> do { w1 \<leftarrow> recycle (put_pool w this (p\<lparr>gc := gs\<rparr>)) this g;
                           drain_recycle k w1 this } }"

text \<open>\<^verbatim>\<open>pool::destruct\<close> (for \<^verbatim>\<open>T = void\<close>: no destructor runs).\<close>

definition destruct :: "world \<Rightarrow> addr \<Rightarrow> addr \<Rightarrow> world option" where
  "destruct w this inp =
     (if inp = 0 then Some w
      else
        do { let ptr = inp - PTR;
             child \<leftarrow> load w ptr;
             self \<leftarrow> load w (from_of child);
             w1 \<leftarrow>
               (if this = self then recycle w this ptr
                else do { q \<leftarrow> pools w self;
                          Some (put_pool w self (q\<lparr>gc := gc q @ [ptr]\<rparr>)) });
             p \<leftarrow> pools w1 this;
             drain_recycle (length (gc p)) w1 this })"

text \<open>The two loops of \<^verbatim>\<open>pool::cleanup\<close>, fuelled like the one of \<^verbatim>\<open>destruct\<close>.\<close>

primrec cleanup_gc :: "nat \<Rightarrow> world \<Rightarrow> addr \<Rightarrow> world option" where
  "cleanup_gc 0 w this = Some w"
| "cleanup_gc (Suc k) w this =
     do { p \<leftarrow> pools w this;
          case gc p of
            [] \<Rightarrow> Some w
          | g # gs \<Rightarrow> do { let w1 = put_pool w this (p\<lparr>gc := gs\<rparr>);
                           b \<leftarrow> load w1 g;
                           w2 \<leftarrow> block_set w1 b g;
                           cleanup_gc k w2 this } }"

primrec cleanup_idle :: "nat \<Rightarrow> world \<Rightarrow> addr \<Rightarrow> world option" where
  "cleanup_idle 0 w this = Some w"
| "cleanup_idle (Suc k) w this =
     do { p \<leftarrow> pools w this;
          case idle p of
            [] \<Rightarrow> Some w
          | b # bs \<Rightarrow>
              if b \<noteq> 0 then
                cleanup_idle k
                  (free_raw (put_pool w this (p\<lparr>idle := bs, all_blks := all_blks p - {b}\<rparr>)) b) this
              else cleanup_idle k (put_pool w this (p\<lparr>idle := bs\<rparr>)) this }"

definition cleanup :: "world \<Rightarrow> addr \<Rightarrow> world option" where
  "cleanup w this =
     do { p \<leftarrow> pools w this;
          w1 \<leftarrow> cleanup_gc (length (gc p)) w this;
          p1 \<leftarrow> pools w1 this;
          cleanup_idle (length (idle p1)) w1 this }"

text \<open>\<^verbatim>\<open>pool::release\<close> (static; for \<^verbatim>\<open>T = void\<close>).\<close>

definition release :: "world \<Rightarrow> addr \<Rightarrow> world option" where
  "release w inp =
     do { let ptr = inp - PTR;
          b \<leftarrow> load w ptr;
          parent \<leftarrow> load w (from_of b);
          q \<leftarrow> pools w parent;
          Some (put_pool w parent (q\<lparr>gc := gc q @ [inp]\<rparr>)) }"

subsection \<open>Configurations and worlds used below\<close>

text \<open>Four pools built by the constructor. The first is the example of the header
  (\<^verbatim>\<open>chunk: 96, align: 32, count: 2\<close>, for which the header gives chunks of 128 bytes and
  a block of 320 bytes); the others differ in the alignment: 64, 16 and 8 (the header's usage
  example has \<^verbatim>\<open>pool p1(sizeof(type), 512, 8)\<close>). \<^verbatim>\<open>DEF_CACHE\<close> is taken as 1; the
  counts 2 and 4 are unchanged by \<open>adjust\<close> for a granularity of 1, 2 (and 4).\<close>

definition cfg32 :: pool where "cfg32 = pool_ctor 1 96 2 32"
definition cfg64 :: pool where "cfg64 = pool_ctor 1 96 2 64"
definition cfg16 :: pool where "cfg16 = pool_ctor 1 8 2 16"
definition cfg8 :: pool where "cfg8 = pool_ctor 1 8 4 8"

text \<open>Two pool objects \<open>A\<close> and \<open>B\<close> of one configuration, and no block yet.\<close>

definition poolA :: addr where "poolA = 0x100"
definition poolB :: addr where "poolB = 0x200"

definition two_pools :: "pool \<Rightarrow> world" where
  "two_pools c =
     \<lparr> mem = (\<lambda>_. 0), heap = [], pools = (\<lambda>_. None)(poolA := Some c, poolB := Some c) \<rparr>"

text \<open>A world in which pool \<open>A\<close> (alignment 64) has one block at \<open>0x1000\<close>, which is its
  \<open>top\<close> and has both chunks free: first chunk at \<open>0x1038\<close>, second at \<open>0x10B8\<close>.\<close>

definition one_block :: world where
  "one_block =
     \<lparr> mem = (\<lambda>_. 0)(0x1000 := poolA, 0x1008 := 0x1038,
                        0x1038 := 0x1000, 0x1040 := 0x10B8,
                        0x10B8 := 0x1000, 0x10C0 := 0),
       heap = [(0x1000, 320)],
       pools = (\<lambda>_. None)(poolA := Some (cfg64\<lparr>top_blk := 0x1000, all_blks := {0x1000}\<rparr>)) \<rparr>"

text \<open>The precondition of the LIFO property: \<open>b\<close> is the \<open>top\<close> of pool \<open>this\<close>, whose
  queue \<open>gc\<close> is empty; \<open>b\<close>'s free list starts with the chunks \<open>c0\<close> and \<open>c1\<close>, whose
  back-references name \<open>b\<close>; \<open>b\<close>'s header names the pool; the eight cells involved are live
  and are eight different cells; the user-visible pointers are not null; and the successor
  of \<open>b\<close> in the available chain, if there is one, links back to \<open>b\<close> through a cell of its
  own.\<close>

definition two_free :: "world \<Rightarrow> addr \<Rightarrow> addr \<Rightarrow> addr \<Rightarrow> addr \<Rightarrow> bool" where
  "two_free w this b c0 c1 =
     ((case pools w this of None \<Rightarrow> False | Some p \<Rightarrow> top_blk p = b \<and> gc p = []) \<and>
      b \<noteq> 0 \<and> c0 \<noteq> 0 \<and> c1 \<noteq> 0 \<and> c0 + PTR \<noteq> 0 \<and> c1 + PTR \<noteq> 0 \<and>
      load w (from_of b) = Some this \<and>
      load w (curr_of b) = Some c0 \<and>
      load w c0 = Some b \<and> load w (c0 + PTR) = Some c1 \<and>
      load w c1 = Some b \<and> in_heap (heap w) (c1 + PTR) \<and>
      in_heap (heap w) (next_of b) \<and> in_heap (heap w) (prev_of b) \<and>
      distinct [from_of b, curr_of b, next_of b, prev_of b, c0, c0 + PTR, c1, c1 + PTR] \<and>
      (mem w (next_of b) = 0 \<or>
       (load w (prev_of (mem w (next_of b))) = Some b \<and>
        prev_of (mem w (next_of b)) \<notin>
          set [from_of b, curr_of b, next_of b, prev_of b, c0, c0 + PTR, c1, c1 + PTR])))"

section \<open>Evaluation of the model\<close>

lemma boundary_from_numeral:
  "boundary_from (numeral k) p n = (if n \<le> p then p else boundary_from (pred_numeral k) (2 * p) n)"
  by (simp add: numeral_eq_Suc)

lemma initialize_loop_numeral:
  "initialize_loop (numeral k) this parent cursor w =
     do { p \<leftarrow> pools w parent;
          let nxt = cursor + SIZE p;
          w1 \<leftarrow> store w cursor this;
          w2 \<leftarrow> store w1 (cursor + PTR) nxt;
          initialize_loop (pred_numeral k) this parent nxt w2 }"
  by (simp add: numeral_eq_Suc)

lemmas ctor_defs = pool_ctor_def boundary_def adjust_def boundary_from_numeral
  PTR_def SIZEOF_BLOCK_def Let_def

text \<open>The constructor gives the example of the header the sizes the header documents.\<close>

lemma cfg32_eq:
  "cfg32 = \<lparr> ALIGNMENT = 32, SIZE = 128, COUNT = 2, ALLOCTATE = 320,
             top_blk = 0, idle = [], all_blks = {}, gc = [] \<rparr>"
  by (simp add: cfg32_def ctor_defs)

lemma cfg64_eq:
  "cfg64 = \<lparr> ALIGNMENT = 64, SIZE = 128, COUNT = 2, ALLOCTATE = 320,
             top_blk = 0, idle = [], all_blks = {}, gc = [] \<rparr>"
  by (simp add: cfg64_def ctor_defs)

lemma cfg16_eq:
  "cfg16 = \<lparr> ALIGNMENT = 16, SIZE = 16, COUNT = 2, ALLOCTATE = 80,
             top_blk = 0, idle = [], all_blks = {}, gc = [] \<rparr>"
  by (simp add: cfg16_def ctor_defs)

lemma cfg8_eq:
  "cfg8 = \<lparr> ALIGNMENT = 8, SIZE = 16, COUNT = 4, ALLOCTATE = 96,
            top_blk = 0, idle = [], all_blks = {}, gc = [] \<rparr>"
  by (simp add: cfg8_def ctor_defs)

lemma granularity_irrelevant:
  "pool_ctor 2 96 2 32 = cfg32" "pool_ctor 2 96 2 64 = cfg64"
  "pool_ctor 2 8 2 16 = cfg16" "pool_ctor 2 8 4 8 = cfg8" "pool_ctor 4 8 4 8 = cfg8"
  by (simp_all add: cfg32_def cfg64_def cfg16_def cfg8_def ctor_defs)

lemmas ops = construct_def construct_take_def pool_setup_def block_initialize_def
  block_get_def block_set_def recycle_def destruct_def cleanup_def release_def
  load_def store_def put_pool_def free_raw_def from_of_def curr_of_def next_of_def prev_of_def
  PTR_def SIZEOF_BLOCK_def Let_def initialize_loop_numeral two_pools_def poolA_def poolB_def

text \<open>The world \<open>one_block\<close> is what pool \<open>A\<close> reaches by two allocations and the two
  deallocations in reverse order, up to the order of the memory updates.\<close>

lemma one_block_reached:
  "do { (w1, x) \<leftarrow> construct (two_pools cfg64) poolA 0x1000;
        (w2, y) \<leftarrow> construct w1 poolA 0;
        w3 \<leftarrow> destruct w2 poolA y;
        w4 \<leftarrow> destruct w3 poolA x;
        Some (heap w4 = heap one_block \<and> pools w4 poolA = pools one_block poolA \<and>
              map (mem w4) [0x1000, 0x1008, 0x1010, 0x1018, 0x1038, 0x1040, 0x10B8, 0x10C0] =
              map (mem one_block) [0x1000, 0x1008, 0x1010, 0x1018, 0x1038, 0x1040, 0x10B8, 0x10C0]) }
   = Some True"
  by (simp add: cfg64_eq one_block_def ops)

subsection \<open>The fuel of the loops is enough\<close>

lemma recycle_gc:
  assumes "recycle w this g = Some w'" "pools w this = Some p"
  shows "\<exists>p'. pools w' this = Some p' \<and> gc p' = gc p"
  using assms
  by (auto simp: recycle_def block_set_def load_def store_def put_pool_def
           split: if_splits Option.bind_splits)

lemma block_set_pools:
  assumes "block_set w b g = Some w'"
  shows "pools w' = pools w"
  using assms
  by (auto simp: block_set_def load_def store_def split: if_splits Option.bind_splits)

lemma drain_recycle_drains:
  assumes "drain_recycle k w this = Some w'" "pools w this = Some p" "length (gc p) \<le> k"
  shows "\<exists>p'. pools w' this = Some p' \<and> gc p' = []"
  using assms
proof (induction k arbitrary: w p)
  case 0
  then show ?case by simp
next
  case (Suc k)
  show ?case
  proof (cases "gc p")
    case Nil
    with Suc.prems show ?thesis by simp
  next
    case (Cons g gs)
    let ?w0 = "put_pool w this (p\<lparr>gc := gs\<rparr>)"
    from Suc.prems Cons obtain w1 where
      r: "recycle ?w0 this g = Some w1" and d: "drain_recycle k w1 this = Some w'"
      by (auto split: Option.bind_splits)
    have "pools ?w0 this = Some (p\<lparr>gc := gs\<rparr>)"
      by (simp add: put_pool_def)
    from recycle_gc [OF r this] obtain p1 where
      p1: "pools w1 this = Some p1" "gc p1 = gs"
      by auto
    from Suc.prems(3) Cons p1 have "length (gc p1) \<le> k"
      by simp
    from Suc.IH [OF d p1(1) this] show ?thesis .
  qed
qed

lemma cleanup_gc_drains:
  assumes "cleanup_gc k w this = Some w'" "pools w this = Some p" "length (gc p) \<le> k"
  shows "\<exists>p'. pools w' this = Some p' \<and> gc p' = [] \<and> idle p' = idle p"
  using assms
proof (induction k arbitrary: w p)
  case 0
  then show ?case by simp
next
  case (Suc k)
  show ?case
  proof (cases "gc p")
    case Nil
    with Suc.prems show ?thesis by simp
  next
    case (Cons g gs)
    let ?w0 = "put_pool w this (p\<lparr>gc := gs\<rparr>)"
    from Suc.prems Cons obtain b w1 where
      r: "block_set ?w0 b g = Some w1" and d: "cleanup_gc k w1 this = Some w'"
      by (auto simp: Let_def split: Option.bind_splits)
    have p1: "pools w1 this = Some (p\<lparr>gc := gs\<rparr>)"
      using block_set_pools [OF r] by (simp add: put_pool_def)
    from Suc.prems(3) Cons have "length (gc (p\<lparr>gc := gs\<rparr>)) \<le> k"
      by simp
    from Suc.IH [OF d p1 this] show ?thesis by simp
  qed
qed

lemma cleanup_idle_drains:
  assumes "cleanup_idle k w this = Some w'" "pools w this = Some p" "length (idle p) \<le> k"
  shows "\<exists>p'. pools w' this = Some p' \<and> idle p' = [] \<and> gc p' = gc p"
  using assms
proof (induction k arbitrary: w p)
  case 0
  then show ?case by simp
next
  case (Suc k)
  show ?case
  proof (cases "idle p")
    case Nil
    with Suc.prems show ?thesis by simp
  next
    case (Cons b bs)
    show ?thesis
    proof (cases "b = 0")
      case True
      let ?w0 = "put_pool w this (p\<lparr>idle := bs\<rparr>)"
      from Suc.prems Cons True have d: "cleanup_idle k ?w0 this = Some w'"
        by simp
      have p1: "pools ?w0 this = Some (p\<lparr>idle := bs\<rparr>)"
        by (simp add: put_pool_def)
      from Suc.prems(3) Cons have "length (idle (p\<lparr>idle := bs\<rparr>)) \<le> k"
        by simp
      from Suc.IH [OF d p1 this] show ?thesis by simp
    next
      case False
      let ?p0 = "p\<lparr>idle := bs, all_blks := all_blks p - {b}\<rparr>"
      let ?w0 = "free_raw (put_pool w this ?p0) b"
      from Suc.prems Cons False have d: "cleanup_idle k ?w0 this = Some w'"
        by simp
      have p1: "pools ?w0 this = Some ?p0"
        by (simp add: put_pool_def free_raw_def)
      from Suc.prems(3) Cons have "length (idle ?p0) \<le> k"
        by simp
      from Suc.IH [OF d p1 this] show ?thesis by simp
    qed
  qed
qed

text \<open>So \<^verbatim>\<open>destruct\<close> leaves the queue of its pool empty, and \<^verbatim>\<open>cleanup\<close> leaves the queue
  and the idle list empty: the loops have run to their end.\<close>

lemma destruct_drains:
  assumes "destruct w this inp = Some w'" "inp \<noteq> 0"
  shows "\<exists>p'. pools w' this = Some p' \<and> gc p' = []"
proof -
  from assms obtain w1 p1 where
    p1: "pools w1 this = Some p1" and d: "drain_recycle (length (gc p1)) w1 this = Some w'"
    by (auto simp: destruct_def Let_def split: Option.bind_splits)
  from drain_recycle_drains [OF d p1] show ?thesis by simp
qed

lemma cleanup_drains:
  assumes "cleanup w this = Some w'"
  shows "\<exists>p'. pools w' this = Some p' \<and> gc p' = [] \<and> idle p' = []"
proof -
  from assms obtain p w1 p1 where
    p: "pools w this = Some p" and g: "cleanup_gc (length (gc p)) w this = Some w1" and
    p1: "pools w1 this = Some p1" and i: "cleanup_idle (length (idle p1)) w1 this = Some w'"
    by (auto simp: cleanup_def split: Option.bind_splits)
  from cleanup_gc_drains [OF g p] p1 have "gc p1 = []" by simp
  with cleanup_idle_drains [OF i p1] show ?thesis by auto
qed

subsection \<open>Single steps on a well-formed part of the memory\<close>

lemma load_ok: "in_heap (heap w) a \<Longrightarrow> load w a = Some (mem w a)"
  by (simp add: load_def)

lemma store_ok: "in_heap (heap w) a \<Longrightarrow> store w a v = Some (w\<lparr>mem := (mem w)(a := v)\<rparr>)"
  by (simp add: store_def)

lemma block_get_ok:
  assumes "in_heap (heap w) (curr_of b)" "mem w (curr_of b) = c" "c \<noteq> 0" "in_heap (heap w) (c + PTR)"
  shows "block_get w b = Some (w\<lparr>mem := (mem w)(curr_of b := mem w (c + PTR))\<rparr>, c)"
  using assms by (simp add: block_get_def load_ok store_ok)

lemma block_set_ok:
  assumes "inp \<noteq> 0" "in_heap (heap w) (curr_of b)" "in_heap (heap w) (inp + PTR)"
  shows "block_set w b inp = Some (w\<lparr>mem := (mem w)(inp + PTR := mem w (curr_of b), curr_of b := inp)\<rparr>)"
  using assms by (simp add: block_set_def load_ok store_ok)

lemma construct_top:
  assumes "pools w this = Some p" "top_blk p \<noteq> 0"
  shows "construct w this fresh = construct_take w this 0"
  using assms by (simp add: construct_def)

lemma take_keep:
  assumes "pools w this = Some p" "top_blk p = b"
    "in_heap (heap w) (curr_of b)" "mem w (curr_of b) = c" "c \<noteq> 0" "in_heap (heap w) (c + PTR)"
    "mem w (c + PTR) \<noteq> 0"
  shows "construct_take w this 0 = Some (w\<lparr>mem := (mem w)(curr_of b := mem w (c + PTR))\<rparr>, c + PTR)"
  using assms by (simp add: construct_take_def block_get_ok load_ok)

lemma take_last_single:
  assumes "pools w this = Some p" "top_blk p = b"
    "in_heap (heap w) (curr_of b)" "mem w (curr_of b) = c" "c \<noteq> 0" "in_heap (heap w) (c + PTR)"
    "mem w (c + PTR) = 0" "in_heap (heap w) (next_of b)" "mem w (next_of b) = 0"
  shows "construct_take w this 0 =
         Some (put_pool (w\<lparr>mem := (mem w)(curr_of b := 0)\<rparr>) this (p\<lparr>top_blk := 0\<rparr>), c + PTR)"
  using assms by (simp add: construct_take_def block_get_ok load_ok next_of_def curr_of_def)

lemma take_last_next:
  assumes "pools w this = Some p" "top_blk p = b"
    "in_heap (heap w) (curr_of b)" "mem w (curr_of b) = c" "c \<noteq> 0" "in_heap (heap w) (c + PTR)"
    "mem w (c + PTR) = 0" "in_heap (heap w) (next_of b)" "mem w (next_of b) = n" "n \<noteq> 0"
    "in_heap (heap w) (prev_of n)" "mem w (prev_of n) = pv" "prev_of n \<noteq> curr_of b" 
    "in_heap (heap w) (next_of pv)" 
  shows "construct_take w this 0 =
         Some (put_pool (w\<lparr>mem := (mem w)(curr_of b := 0, next_of pv := 0, prev_of n := 0)\<rparr>) this (p\<lparr>top_blk := n\<rparr>), c + PTR)"
  using assms by (simp add: construct_take_def block_get_ok load_ok store_ok put_pool_def next_of_def curr_of_def)

lemma recycle_partial_top:
  assumes "in_heap (heap w) inp" "mem w inp = b" "pools w this = Some p" "top_blk p = b"
    "in_heap (heap w) (curr_of b)" "mem w (curr_of b) \<noteq> 0" "inp \<noteq> 0" "in_heap (heap w) (inp + PTR)"
  shows "recycle w this inp = Some (w\<lparr>mem := (mem w)(inp + PTR := mem w (curr_of b), curr_of b := inp)\<rparr>)"
  using assms by (simp add: recycle_def block_set_ok load_ok)

lemma recycle_full_top0:
  assumes "in_heap (heap w) inp" "mem w inp = b" "pools w this = Some p" "top_blk p = 0"
    "in_heap (heap w) (curr_of b)" "mem w (curr_of b) = 0" "inp \<noteq> 0" "in_heap (heap w) (inp + PTR)"
    "in_heap (heap w) (next_of b)" "in_heap (heap w) (prev_of b)"
  shows "recycle w this inp =
         Some (put_pool (w\<lparr>mem := (mem w)(next_of b := 0, prev_of b := 0, inp + PTR := 0, curr_of b := inp)\<rparr>)
                 this (p\<lparr>top_blk := b\<rparr>))"
  using assms
  by (simp add: recycle_def block_set_ok load_ok store_ok put_pool_def next_of_def prev_of_def curr_of_def)

lemma recycle_full_topn:
  assumes "in_heap (heap w) inp" "mem w inp = b" "pools w this = Some p" "top_blk p = t" "t \<noteq> 0"
    "in_heap (heap w) (curr_of b)" "mem w (curr_of b) = 0" "inp \<noteq> 0" "in_heap (heap w) (inp + PTR)"
    "in_heap (heap w) (next_of b)" "in_heap (heap w) (prev_of b)" "in_heap (heap w) (prev_of t)"
    "prev_of t \<noteq> curr_of b"
  shows "recycle w this inp =
         Some (put_pool (w\<lparr>mem := (mem w)(prev_of t := b, next_of b := t, prev_of b := 0,
                                          inp + PTR := 0, curr_of b := inp)\<rparr>)
                 this (p\<lparr>top_blk := b\<rparr>))"
  using assms
  by (simp add: recycle_def block_set_ok load_ok store_ok put_pool_def next_of_def prev_of_def curr_of_def)

lemma destruct_own:
  assumes "inp \<noteq> 0" "in_heap (heap w) (inp - PTR)" "mem w (inp - PTR) = b"
    "in_heap (heap w) (from_of b)" "mem w (from_of b) = this"
    "recycle w this (inp - PTR) = Some w'" "pools w' this = Some p'" "gc p' = []"
  shows "destruct w this inp = Some w'"
  using assms by (simp add: destruct_def load_ok)

lemma lifo_three_free:
  assumes P: "pools w this = Some p" "top_blk p = b" "gc p = []"
    and N: "b \<noteq> 0" "c0 \<noteq> 0" "c1 \<noteq> 0" "c2 \<noteq> 0" "c0 + PTR \<noteq> 0" "c1 + PTR \<noteq> 0"
    and V: "in_heap (heap w) (from_of b)" "in_heap (heap w) (curr_of b)"
           "in_heap (heap w) c0" "in_heap (heap w) (c0 + PTR)"
           "in_heap (heap w) c1" "in_heap (heap w) (c1 + PTR)"
    and M: "mem w (from_of b) = this" "mem w (curr_of b) = c0" "mem w c0 = b"
           "mem w (c0 + PTR) = c1" "mem w c1 = b" "mem w (c1 + PTR) = c2"
    and D: "distinct [from_of b, curr_of b, c0, c0 + PTR, c1, c1 + PTR]"
  shows "do { (w1, x) \<leftarrow> construct w this fresh; (w2, y) \<leftarrow> construct w1 this fresh;
              w3 \<leftarrow> destruct w2 this y; w4 \<leftarrow> destruct w3 this x;
              (w5, c) \<leftarrow> construct w4 this fresh; (w6, d) \<leftarrow> construct w5 this fresh;
              Some (x, y, c, d) } = Some (c0 + PTR, c1 + PTR, c0 + PTR, c1 + PTR)"
proof -
  define s1 where "s1 = w\<lparr>mem := (mem w)(curr_of b := c1)\<rparr>"
  define s2 where "s2 = s1\<lparr>mem := (mem s1)(curr_of b := c2)\<rparr>"
  define s3 where "s3 = s2\<lparr>mem := (mem s2)(c1 + PTR := c2, curr_of b := c1)\<rparr>"
  define s4 where "s4 = s3\<lparr>mem := (mem s3)(c0 + PTR := c1, curr_of b := c0)\<rparr>"
  define s5 where "s5 = s4\<lparr>mem := (mem s4)(curr_of b := c1)\<rparr>"
  define s6 where "s6 = s5\<lparr>mem := (mem s5)(curr_of b := c2)\<rparr>"
  note defs = s1_def s2_def s3_def s4_def s5_def s6_def
  have H: "heap s1 = heap w" "heap s2 = heap w" "heap s3 = heap w" "heap s4 = heap w" "heap s5 = heap w"
    by (simp_all add: defs)
  have Q: "pools s1 this = Some p" "pools s2 this = Some p" "pools s3 this = Some p"
          "pools s4 this = Some p" "pools s5 this = Some p"
    using P by (simp_all add: defs)
  have e1: "construct w this fresh = Some (s1, c0 + PTR)"
    using P N V M by (simp add: construct_top [of w this p] take_keep [of w this p b c0] s1_def)
  have m1: "mem s1 (curr_of b) = c1" "mem s1 (c1 + PTR) = c2"
    using M D by (auto simp: defs)
  have e2: "construct s1 this fresh = Some (s2, c1 + PTR)"
    using P N V m1 H Q
    by (simp add: construct_top [of s1 this p] take_keep [of s1 this p b c1] s2_def)
  have m2: "mem s2 c1 = b" "mem s2 (from_of b) = this" "mem s2 (curr_of b) = c2"
    using M D by (auto simp: defs)
  have r3: "recycle s2 this c1 = Some s3"
    using P N V m2 H Q by (simp add: recycle_partial_top [of s2 c1 b this p] s3_def)
  have e3: "destruct s2 this (c1 + PTR) = Some s3"
    using P N V m2 H Q r3 by (simp add: destruct_own [of "c1 + PTR" s2 b this s3 p])
  have m3: "mem s3 c0 = b" "mem s3 (from_of b) = this" "mem s3 (curr_of b) = c1"
    using M D by (auto simp: defs)
  have r4: "recycle s3 this c0 = Some s4"
    using P N V m3 H Q by (simp add: recycle_partial_top [of s3 c0 b this p] s4_def)
  have e4: "destruct s3 this (c0 + PTR) = Some s4"
    using P N V m3 H Q r4 by (simp add: destruct_own [of "c0 + PTR" s3 b this s4 p])
  have m4: "mem s4 (curr_of b) = c0" "mem s4 (c0 + PTR) = c1"
    using M D by (auto simp: defs)
  have e5: "construct s4 this fresh = Some (s5, c0 + PTR)"
    using P N V m4 H Q
    by (simp add: construct_top [of s4 this p] take_keep [of s4 this p b c0] s5_def)
  have m5: "mem s5 (curr_of b) = c1" "mem s5 (c1 + PTR) = c2"
    using M D by (auto simp: defs)
  have e6: "construct s5 this fresh = Some (s6, c1 + PTR)"
    using P N V m5 H Q
    by (simp add: construct_top [of s5 this p] take_keep [of s5 this p b c1] s6_def)
  show ?thesis
    by (simp add: e1 e2 e3 e4 e5 e6)
qed

lemma lifo_two_free_single:
  assumes P: "pools w this = Some p" "top_blk p = b" "gc p = []"
    and N: "b \<noteq> 0" "c0 \<noteq> 0" "c1 \<noteq> 0" "c0 + PTR \<noteq> 0" "c1 + PTR \<noteq> 0"
    and V: "in_heap (heap w) (from_of b)" "in_heap (heap w) (curr_of b)"
           "in_heap (heap w) (next_of b)" "in_heap (heap w) (prev_of b)"
           "in_heap (heap w) c0" "in_heap (heap w) (c0 + PTR)"
           "in_heap (heap w) c1" "in_heap (heap w) (c1 + PTR)"
    and M: "mem w (from_of b) = this" "mem w (curr_of b) = c0" "mem w c0 = b"
           "mem w (c0 + PTR) = c1" "mem w c1 = b" "mem w (c1 + PTR) = 0"
    and D: "distinct [from_of b, curr_of b, next_of b, prev_of b, c0, c0 + PTR, c1, c1 + PTR]"
    and L: "mem w (next_of b) = 0"
  shows "do { (w1, x) \<leftarrow> construct w this fresh; (w2, y) \<leftarrow> construct w1 this fresh;
              w3 \<leftarrow> destruct w2 this y; w4 \<leftarrow> destruct w3 this x;
              (w5, c) \<leftarrow> construct w4 this fresh; (w6, d) \<leftarrow> construct w5 this fresh;
              Some (x, y, c, d) } = Some (c0 + PTR, c1 + PTR, c0 + PTR, c1 + PTR)"
proof -
  define p2 where "p2 = p\<lparr>top_blk := 0\<rparr>"
  define p3 where "p3 = p2\<lparr>top_blk := b\<rparr>"
  define p6 where "p6 = p3\<lparr>top_blk := 0\<rparr>"
  define s1 where "s1 = w\<lparr>mem := (mem w)(curr_of b := c1)\<rparr>"
  define s2 where "s2 = put_pool (s1\<lparr>mem := (mem s1)(curr_of b := 0)\<rparr>) this p2"
  define s3 where "s3 = put_pool (s2\<lparr>mem := (mem s2)(next_of b := 0, prev_of b := 0,
                                c1 + PTR := 0, curr_of b := c1)\<rparr>) this p3"
  define s4 where "s4 = s3\<lparr>mem := (mem s3)(c0 + PTR := c1, curr_of b := c0)\<rparr>"
  define s5 where "s5 = s4\<lparr>mem := (mem s4)(curr_of b := c1)\<rparr>"
  define s6 where "s6 = put_pool (s5\<lparr>mem := (mem s5)(curr_of b := 0)\<rparr>) this p6"
  note defs = s1_def s2_def s3_def s4_def s5_def s6_def put_pool_def
  have H: "heap s1 = heap w" "heap s2 = heap w" "heap s3 = heap w" "heap s4 = heap w" "heap s5 = heap w"
    by (simp_all add: defs)
  have Q: "pools s1 this = Some p" "pools s2 this = Some p2" "pools s3 this = Some p3"
          "pools s4 this = Some p3" "pools s5 this = Some p3"
    using P by (simp_all add: defs)
  have T: "top_blk p2 = 0" "top_blk p3 = b" "gc p2 = []" "gc p3 = []"
    using P by (simp_all add: p2_def p3_def)
  have e1: "construct w this fresh = Some (s1, c0 + PTR)"
    using P N V M by (simp add: construct_top [of w this p] take_keep [of w this p b c0] s1_def)
  have m1: "mem s1 (curr_of b) = c1" "mem s1 (c1 + PTR) = 0" "mem s1 (next_of b) = 0"
    using M L D by (auto simp: defs)
  have e2: "construct s1 this fresh = Some (s2, c1 + PTR)"
    using P N V m1 H Q
    by (simp add: construct_top [of s1 this p] take_last_single [of s1 this p b c1] s2_def p2_def)
  have m2: "mem s2 c1 = b" "mem s2 (from_of b) = this" "mem s2 (curr_of b) = 0"
    using M D by (auto simp: defs)
  have r3: "recycle s2 this c1 = Some s3"
    using N V m2 H Q T by (simp add: recycle_full_top0 [of s2 c1 b this p2] s3_def p3_def)
  have e3: "destruct s2 this (c1 + PTR) = Some s3"
    using N V m2 H Q T r3 by (simp add: destruct_own [of "c1 + PTR" s2 b this s3 p3])
  have m3: "mem s3 c0 = b" "mem s3 (from_of b) = this" "mem s3 (curr_of b) = c1"
    using M N D by (auto simp: defs)
  have r4: "recycle s3 this c0 = Some s4"
    using N V m3 H Q T by (simp add: recycle_partial_top [of s3 c0 b this p3] s4_def)
  have e4: "destruct s3 this (c0 + PTR) = Some s4"
    using N V m3 H Q T r4 by (simp add: destruct_own [of "c0 + PTR" s3 b this s4 p3])
  have m4: "mem s4 (curr_of b) = c0" "mem s4 (c0 + PTR) = c1"
    using M D by (auto simp: defs)
  have e5: "construct s4 this fresh = Some (s5, c0 + PTR)"
    using N V m4 H Q T
    by (simp add: construct_top [of s4 this p3] take_keep [of s4 this p3 b c0] s5_def)
  have m5: "mem s5 (curr_of b) = c1" "mem s5 (c1 + PTR) = 0" "mem s5 (next_of b) = 0"
    using M D by (auto simp: defs)
  have e6: "construct s5 this fresh = Some (s6, c1 + PTR)"
    using N V m5 H Q T
    by (simp add: construct_top [of s5 this p3] take_last_single [of s5 this p3 b c1] s6_def p6_def)
  show ?thesis
    by (simp add: e1 e2 e3 e4 e5 e6)
qed

lemma lifo_two_free_chained:
  assumes P: "pools w this = Some p" "top_blk p = b" "gc p = []"
    and N: "b \<noteq> 0" "c0 \<noteq> 0" "c1 \<noteq> 0" "c0 + PTR \<noteq> 0" "c1 + PTR \<noteq> 0"
    and V: "in_heap (heap w) (from_of b)" "in_heap (heap w) (curr_of b)"
           "in_heap (heap w) (next_of b)" "in_heap (heap w) (prev_of b)"
           "in_heap (heap w) c0" "in_heap (heap w) (c0 + PTR)"
           "in_heap (heap w) c1" "in_heap (heap w) (c1 + PTR)"
    and M: "mem w (from_of b) = this" "mem w (curr_of b) = c0" "mem w c0 = b"
           "mem w (c0 + PTR) = c1" "mem w c1 = b" "mem w (c1 + PTR) = 0"
    and D: "distinct [from_of b, curr_of b, next_of b, prev_of b, c0, c0 + PTR, c1, c1 + PTR]"
    and L: "mem w (next_of b) = n" "n \<noteq> 0" "in_heap (heap w) (prev_of n)" "mem w (prev_of n) = b"
           "prev_of n \<notin> set [from_of b, curr_of b, next_of b, prev_of b, c0, c0 + PTR, c1, c1 + PTR]"
  shows "do { (w1, x) \<leftarrow> construct w this fresh; (w2, y) \<leftarrow> construct w1 this fresh;
              w3 \<leftarrow> destruct w2 this y; w4 \<leftarrow> destruct w3 this x;
              (w5, c) \<leftarrow> construct w4 this fresh; (w6, d) \<leftarrow> construct w5 this fresh;
              Some (x, y, c, d) } = Some (c0 + PTR, c1 + PTR, c0 + PTR, c1 + PTR)"
proof -
  define p2 where "p2 = p\<lparr>top_blk := n\<rparr>"
  define p3 where "p3 = p2\<lparr>top_blk := b\<rparr>"
  define p6 where "p6 = p3\<lparr>top_blk := n\<rparr>"
  define s1 where "s1 = w\<lparr>mem := (mem w)(curr_of b := c1)\<rparr>"
  define s2 where "s2 = put_pool (s1\<lparr>mem := (mem s1)(curr_of b := 0, next_of b := 0,
                                prev_of n := 0)\<rparr>) this p2"
  define s3 where "s3 = put_pool (s2\<lparr>mem := (mem s2)(prev_of n := b, next_of b := n, prev_of b := 0,
                                c1 + PTR := 0, curr_of b := c1)\<rparr>) this p3"
  define s4 where "s4 = s3\<lparr>mem := (mem s3)(c0 + PTR := c1, curr_of b := c0)\<rparr>"
  define s5 where "s5 = s4\<lparr>mem := (mem s4)(curr_of b := c1)\<rparr>"
  define s6 where "s6 = put_pool (s5\<lparr>mem := (mem s5)(curr_of b := 0, next_of b := 0,
                                prev_of n := 0)\<rparr>) this p6"
  note defs = s1_def s2_def s3_def s4_def s5_def s6_def put_pool_def
  have H: "heap s1 = heap w" "heap s2 = heap w" "heap s3 = heap w" "heap s4 = heap w" "heap s5 = heap w"
    by (simp_all add: defs)
  have Q: "pools s1 this = Some p" "pools s2 this = Some p2" "pools s3 this = Some p3"
          "pools s4 this = Some p3" "pools s5 this = Some p3"
    using P by (simp_all add: defs)
  have T: "top_blk p2 = n" "top_blk p3 = b" "gc p2 = []" "gc p3 = []"
    using P by (simp_all add: p2_def p3_def)
  have K: "prev_of n \<noteq> curr_of b"
    using L by auto
  have e1: "construct w this fresh = Some (s1, c0 + PTR)"
    using P N V M by (simp add: construct_top [of w this p] take_keep [of w this p b c0] s1_def)
  have m1: "mem s1 (curr_of b) = c1" "mem s1 (c1 + PTR) = 0" "mem s1 (next_of b) = n"
           "mem s1 (prev_of n) = b"
    using M L D by (auto simp: defs)
  have e2: "construct s1 this fresh = Some (s2, c1 + PTR)"
    using P N V m1 H Q L K
    by (simp add: construct_top [of s1 this p] take_last_next [of s1 this p b c1 n b] s2_def p2_def)
  have m2: "mem s2 c1 = b" "mem s2 (from_of b) = this" "mem s2 (curr_of b) = 0"
    using M L D by (auto simp: defs)
  have r3: "recycle s2 this c1 = Some s3"
    using N V m2 H Q T L K by (simp add: recycle_full_topn [of s2 c1 b this p2 n] s3_def p3_def)
  have e3: "destruct s2 this (c1 + PTR) = Some s3"
    using N V m2 H Q T r3 by (simp add: destruct_own [of "c1 + PTR" s2 b this s3 p3])
  have m3: "mem s3 c0 = b" "mem s3 (from_of b) = this" "mem s3 (curr_of b) = c1"
    using M N L D by (auto simp: defs)
  have r4: "recycle s3 this c0 = Some s4"
    using N V m3 H Q T by (simp add: recycle_partial_top [of s3 c0 b this p3] s4_def)
  have e4: "destruct s3 this (c0 + PTR) = Some s4"
    using N V m3 H Q T r4 by (simp add: destruct_own [of "c0 + PTR" s3 b this s4 p3])
  have m4: "mem s4 (curr_of b) = c0" "mem s4 (c0 + PTR) = c1"
    using M D by (auto simp: defs)
  have e5: "construct s4 this fresh = Some (s5, c0 + PTR)"
    using N V m4 H Q T
    by (simp add: construct_top [of s4 this p3] take_keep [of s4 this p3 b c0] s5_def)
  have m5: "mem s5 (curr_of b) = c1" "mem s5 (c1 + PTR) = 0" "mem s5 (next_of b) = n"
           "mem s5 (prev_of n) = b"
    using M L D by (auto simp: defs)
  have e6: "construct s5 this fresh = Some (s6, c1 + PTR)"
    using N V m5 H Q T L K
    by (simp add: construct_top [of s5 this p3] take_last_next [of s5 this p3 b c1 n b] s6_def p6_def)
  show ?thesis
    by (simp add: e1 e2 e3 e4 e5 e6)
qed

subsection \<open>The first chunk and the block header\<close>

text \<open>\<^verbatim>\<open>block::initialize\<close> puts the first chunk at \<^verbatim>\<open>this + alignment - sizeof(void*)\<close>. For
  the alignments 8, 16 and 32 its back-reference is a field of the block header: \<^verbatim>\<open>from\<close>,
  \<^verbatim>\<open>curr\<close> and \<^verbatim>\<open>prev\<close>.\<close>

lemma first_chunk_over_header:
  "this + 8 - PTR = from_of this" "this + 16 - PTR = curr_of this" "this + 32 - PTR = prev_of this"
  by (simp_all add: PTR_def from_of_def curr_of_def prev_of_def)

text \<open>What the loop of \<^verbatim>\<open>block::initialize\<close> leaves alone.\<close>

lemma store_frame:
  assumes "store w a v = Some w'"
  shows "pools w' = pools w" "heap w' = heap w" "mem w' a = v" "a' \<noteq> a \<Longrightarrow> mem w' a' = mem w a'"
  using assms by (auto simp: store_def split: if_splits)

lemma initialize_loop_frame:
  assumes "initialize_loop n this parent cursor w = Some (w', cursor')" "pools w parent = Some p"
    "\<And>i. i < n \<Longrightarrow> a \<noteq> cursor + of_nat i * SIZE p \<and> a \<noteq> cursor + of_nat i * SIZE p + PTR"
  shows "mem w' a = mem w a \<and> cursor' = cursor + of_nat n * SIZE p \<and>
         pools w' = pools w \<and> heap w' = heap w"
  using assms
proof (induction n arbitrary: cursor w)
  case 0
  then show ?case by simp
next
  case (Suc n)
  from Suc.prems(1,2) obtain w1 w2 where
    s1: "store w cursor this = Some w1" and
    s2: "store w1 (cursor + PTR) (cursor + SIZE p) = Some w2" and
    l: "initialize_loop n this parent (cursor + SIZE p) w2 = Some (w', cursor')"
    by (auto simp: Let_def split: Option.bind_splits)
  have p2: "pools w2 parent = Some p"
    using store_frame(1) [OF s1] store_frame(1) [OF s2] Suc.prems(2) by simp
  have a0: "a \<noteq> cursor" "a \<noteq> cursor + PTR"
    using Suc.prems(3) [of 0] by simp_all
  have m2: "mem w2 a = mem w a"
    using store_frame(4) [OF s1, of a] store_frame(4) [OF s2, of a] a0 by simp
  have step: "\<And>i. i < n \<Longrightarrow> a \<noteq> cursor + SIZE p + of_nat i * SIZE p \<and>
                               a \<noteq> cursor + SIZE p + of_nat i * SIZE p + PTR"
  proof -
    fix i assume "i < n"
    then have "Suc i < Suc n" by simp
    from Suc.prems(3) [OF this] show "a \<noteq> cursor + SIZE p + of_nat i * SIZE p \<and>
                               a \<noteq> cursor + SIZE p + of_nat i * SIZE p + PTR"
      by (simp add: algebra_simps)
  qed
  from Suc.IH [OF l p2 step] have
    "mem w' a = mem w2 a" "cursor' = cursor + SIZE p + of_nat n * SIZE p"
    "pools w' = pools w2" "heap w' = heap w2"
    by simp_all
  then show ?case
    using m2 store_frame(1,2) [OF s1] store_frame(1,2) [OF s2]
    by (simp add: algebra_simps)
qed

text \<open>With an alignment of 16, whatever the chunk size and the count (as long as the chunks
  do not wrap around the address space), \<^verbatim>\<open>block::initialize\<close> leaves the block's own
  address in \<open>curr\<close>.\<close>

lemma initialize_align16_curr:
  assumes "block_initialize w b parent count 16 = Some w'" "pools w parent = Some p"
    "\<And>i. 0 < i \<Longrightarrow> i \<le> unat (count - 1) \<Longrightarrow>
          of_nat i * SIZE p \<noteq> 0 \<and> of_nat i * SIZE p + PTR \<noteq> 0"
  shows "mem w' (curr_of b) = b \<and> pools w' = pools w \<and> heap w' = heap w \<and>
         in_heap (heap w) (curr_of b)"
proof -
  let ?n = "unat (count - 1)"
  from assms(1) obtain w1 w2 w3 w4 w5 cursor' w6 where
    s1: "store w (from_of b) parent = Some w1" and
    s2: "store w1 (next_of b) 0 = Some w2" and
    s3: "store w2 (prev_of b) 0 = Some w3" and
    s4: "store w3 (curr_of b) (b + 16 - PTR) = Some w4" and
    l: "initialize_loop ?n b parent (b + 16 - PTR) w4 = Some (w5, cursor')" and
    s6: "store w5 cursor' b = Some w6" and
    s7: "store w6 (cursor' + PTR) 0 = Some w'"
    by (auto simp: block_initialize_def Let_def split: Option.bind_splits prod.splits)
  have c: "b + 16 - PTR = curr_of b"
    by (simp add: PTR_def curr_of_def)
  have p4: "pools w4 = pools w" "heap w4 = heap w"
    using store_frame(1,2) [OF s1] store_frame(1,2) [OF s2] store_frame(1,2) [OF s3]
      store_frame(1,2) [OF s4] by simp_all
  have "in_heap (heap w3) (curr_of b)"
    using s4 by (simp add: store_def split: if_splits)
  then have v: "in_heap (heap w) (curr_of b)"
    using store_frame(2) [OF s1] store_frame(2) [OF s2] store_frame(2) [OF s3] by simp
  have p4': "pools w4 parent = Some p"
    using p4 assms(2) by simp
  show ?thesis
  proof (cases ?n)
    case 0
    with l have e: "w5 = w4" "cursor' = curr_of b"
      by (simp_all add: c)
    have "mem w6 (curr_of b) = b"
      using store_frame(3) [OF s6] e by simp
    moreover have "curr_of b \<noteq> cursor' + PTR"
      using e by (simp add: PTR_def)
    ultimately have "mem w' (curr_of b) = b"
      using store_frame(4) [OF s7, of "curr_of b"] by simp
    then show ?thesis
      using p4 e v store_frame(1,2) [OF s6] store_frame(1,2) [OF s7] by simp
  next
    case (Suc m)
    from l Suc p4' obtain wa wb where
      sa: "store w4 (curr_of b) b = Some wa" and
      sb: "store wa (curr_of b + PTR) (curr_of b + SIZE p) = Some wb" and
      l': "initialize_loop m b parent (curr_of b + SIZE p) wb = Some (w5, cursor')"
      by (auto simp: c Let_def split: Option.bind_splits)
    have pb: "pools wb parent = Some p" "pools wb = pools w" "heap wb = heap w"
      using store_frame(1,2) [OF sa] store_frame(1,2) [OF sb] p4 p4' by simp_all
    have mb: "mem wb (curr_of b) = b"
      using store_frame(3) [OF sa] store_frame(4) [OF sb, of "curr_of b"] by (simp add: PTR_def)
    have fr: "\<And>i. i < m \<Longrightarrow> curr_of b \<noteq> curr_of b + SIZE p + of_nat i * SIZE p \<and>
                            curr_of b \<noteq> curr_of b + SIZE p + of_nat i * SIZE p + PTR"
    proof -
      fix i assume "i < m"
      then have "0 < Suc i" "Suc i \<le> ?n" using Suc by simp_all
      from assms(3) [OF this] have "SIZE p + of_nat i * SIZE p \<noteq> 0"
        "SIZE p + of_nat i * SIZE p + PTR \<noteq> 0"
        by (simp_all add: algebra_simps)
      then show "curr_of b \<noteq> curr_of b + SIZE p + of_nat i * SIZE p \<and>
                 curr_of b \<noteq> curr_of b + SIZE p + of_nat i * SIZE p + PTR"
        by (simp add: add.assoc)
    qed
    from initialize_loop_frame [OF l' pb(1) fr] have
      m5: "mem w5 (curr_of b) = b" and c5: "cursor' = curr_of b + SIZE p + of_nat m * SIZE p" and
      p5: "pools w5 = pools w" "heap w5 = heap w"
      using mb pb by simp_all
    have "0 < Suc m" "Suc m \<le> ?n" using Suc by simp_all
    from assms(3) [OF this] have "SIZE p + of_nat m * SIZE p \<noteq> 0"
        "SIZE p + of_nat m * SIZE p + PTR \<noteq> 0"
      by (simp_all add: algebra_simps)
    then have ne: "curr_of b \<noteq> cursor'" "curr_of b \<noteq> cursor' + PTR"
      by (simp_all add: c5 add.assoc)
    have "mem w' (curr_of b) = b"
      using store_frame(4) [OF s6, of "curr_of b"] store_frame(4) [OF s7, of "curr_of b"] ne m5
      by simp
    then show ?thesis
      using p5 v store_frame(1,2) [OF s6] store_frame(1,2) [OF s7] by simp
  qed
qed

text \<open>Once the \<open>curr\<close> field of the \<open>top\<close> block holds the block's own address,
  \<^verbatim>\<open>construct\<close> changes nothing and returns the same address each time.\<close>

lemma construct_self_loop:
  assumes "pools w this = Some p" "top_blk p = b" "b \<noteq> 0"
    "in_heap (heap w) (curr_of b)" "mem w (curr_of b) = b"
  shows "construct w this fresh = Some (w, b + PTR)"
proof -
  have "b + PTR = curr_of b"
    by (simp add: PTR_def curr_of_def)
  moreover have "w\<lparr>mem := (mem w)(curr_of b := b)\<rparr> = w"
    using assms(5) by (simp add: fun_upd_idem)
  ultimately show ?thesis
    using assms by (simp add: construct_def construct_take_def block_get_def load_def store_def)
qed

text \<open>So a pool of alignment 16 whose first allocation succeeds returns the address 8 bytes
  into its first block, then and ever after.\<close>

lemma align16_same_address:
  assumes "pools w this = Some p" "ALIGNMENT p = 16" "top_blk p = 0" "idle p = []" "gc p = []"
    "fresh \<noteq> 0" "construct w this fresh = Some (w1, x)"
    "\<And>i. 0 < i \<Longrightarrow> i \<le> unat (COUNT p - 1) \<Longrightarrow>
          of_nat i * SIZE p \<noteq> 0 \<and> of_nat i * SIZE p + PTR \<noteq> 0"
  shows "x = fresh + PTR \<and> construct w1 this fresh' = Some (w1, fresh + PTR)"
proof -
  let ?wh = "w\<lparr>heap := (fresh, unat (ALLOCTATE p)) # heap w\<rparr>"
  have ph: "pools ?wh this = Some p"
    using assms(1) by simp
  from assms(1-7) obtain w2 where
    i: "block_initialize ?wh fresh this (COUNT p) 16 = Some w2"
    by (auto simp: construct_def pool_setup_def Let_def split: Option.bind_splits)
  from initialize_align16_curr [OF i ph assms(8)] have
    f: "mem w2 (curr_of fresh) = fresh" "pools w2 = pools w" "heap w2 = heap ?wh"
       "in_heap (heap ?wh) (curr_of fresh)"
    by simp_all
  define s where "s = put_pool (put_pool w2 this (p\<lparr>all_blks := insert fresh (all_blks p)\<rparr>)) this
                        (p\<lparr>all_blks := insert fresh (all_blks p), top_blk := fresh\<rparr>)"
  have s: "pools s this = Some (p\<lparr>all_blks := insert fresh (all_blks p), top_blk := fresh\<rparr>)"
    "mem s (curr_of fresh) = fresh" "in_heap (heap s) (curr_of fresh)"
    using f by (simp_all add: s_def put_pool_def)
  have t: "construct_take s this 0 = construct s this fresh'" for fresh'
    using s(1) assms(6) by (simp add: construct_def)
  have loop: "construct s this fresh' = Some (s, fresh + PTR)" for fresh'
    using construct_self_loop [OF s(1) _ assms(6) s(3) s(2)] by simp
  have "construct w this fresh = construct_take s this 0"
    using assms(1-6) i f by (simp add: construct_def pool_setup_def s_def put_pool_def)
  with assms(7) t loop have "w1 = s" "x = fresh + PTR"
    by simp_all
  with loop show ?thesis by simp
qed

section \<open>The claims\<close>

subsection \<open>C1: \<^verbatim>\<open>release\<close>\<close>

text \<open>
  C1 says that \<^verbatim>\<open>pool::release(X)\<close> pushes the raw chunk of \<open>X\<close> to the owner's queue, so that
  the owner's next \<^verbatim>\<open>cleanup\<close> (or \<^verbatim>\<open>destruct\<close>) puts that chunk back on its block's free list
  and \<^verbatim>\<open>construct\<close> can return \<open>X\<close> again. The code pushes the user-visible pointer \<open>X\<close> itself,
  one pointer past the chunk. Here pool \<open>A\<close> allocates \<open>X = 0x1040\<close> (chunk \<open>0x1038\<close>) and
  \<open>X\<close> is released: the queue holds \<open>0x1040\<close>; \<^verbatim>\<open>cleanup\<close> reads the word at \<open>X\<close> as the
  owning block; the next two allocations return \<open>0x10C0\<close> and \<open>0x1048\<close> (the inside of the
  released object), and the third finds the pool empty: \<open>X\<close> is not returned again.
\<close>

theorem release_pushes_user_pointer:
  "do { (w1, x) \<leftarrow> construct (two_pools cfg64) poolA 0x1000;
        w2 \<leftarrow> release w1 x;
        p2 \<leftarrow> pools w2 poolA;
        w3 \<leftarrow> cleanup w2 poolA;
        (w4, y) \<leftarrow> construct w3 poolA 0;
        (w5, z) \<leftarrow> construct w4 poolA 0;
        (w6, u) \<leftarrow> construct w5 poolA 0;
        Some (x, x - PTR, gc p2, y, z, u) }
   = Some (0x1040, 0x1038, [0x1040], 0x10C0, 0x1048, 0)"
  by (simp add: cfg64_eq ops)

subsection \<open>C2: idle blocks\<close>

text \<open>In every world, returning a chunk leaves the idle queue as it is unless the chunk's
  address is \<^verbatim>\<open>parent + 1\<close>, 32 bytes into its block.\<close>

lemma recycle_idle_only_at_32:
  assumes "recycle w this inp = Some w'" "pools w this = Some p" "load w inp = Some parent"
    "inp \<noteq> 0" "inp \<noteq> parent + SIZEOF_BLOCK"
  shows "\<exists>p'. pools w' this = Some p' \<and> idle p' = idle p"
  using assms
  by (auto simp: recycle_def block_set_def load_def store_def put_pool_def
           split: if_splits Option.bind_splits)

text \<open>
  C2 says that a block other than \<open>top\<close> all of whose chunks have been returned (its
  \<open>curr\<close> is the address of its first chunk) is moved to the idle queue by \<^verbatim>\<open>recycle\<close>, freed
  by the next \<^verbatim>\<open>cleanup\<close> and never allocated from again. \<^verbatim>\<open>recycle\<close> compares \<open>curr\<close> with
  \<^verbatim>\<open>parent + 1\<close>, the address 32 bytes into the block, while \<^verbatim>\<open>initialize\<close> has put the first
  chunk at \<^verbatim>\<open>alignment - sizeof(void*)\<close>. Here pool \<open>A\<close> (alignment 64) fills the blocks
  \<open>0x1000\<close> and \<open>0x2000\<close>, then gets back one chunk of each and then the other chunk of
  \<open>0x1000\<close>, first chunk last. Then \<open>top\<close> is \<open>0x2000\<close>, the free list of \<open>0x1000\<close> is its first
  chunk \<open>0x1038\<close> followed by \<open>0x10B8\<close>, and the idle queue is empty; after \<^verbatim>\<open>cleanup\<close> the
  block is still in \<^verbatim>\<open>all\<close> and still allocated, and the second allocation after it returns
  \<open>0x1040\<close>, memory of that block.
\<close>

theorem all_free_block_not_idle:
  "do { (w1, a1) \<leftarrow> construct (two_pools cfg64) poolA 0x1000;
        (w2, a2) \<leftarrow> construct w1 poolA 0;
        (w3, b1) \<leftarrow> construct w2 poolA 0x2000;
        (w4, b2) \<leftarrow> construct w3 poolA 0;
        w5 \<leftarrow> destruct w4 poolA a2;
        w6 \<leftarrow> destruct w5 poolA b2;
        w7 \<leftarrow> destruct w6 poolA a1;
        p7 \<leftarrow> pools w7 poolA;
        w8 \<leftarrow> cleanup w7 poolA;
        p8 \<leftarrow> pools w8 poolA;
        (w9, c1) \<leftarrow> construct w8 poolA 0;
        (w10, c2) \<leftarrow> construct w9 poolA 0;
        Some ([a1, a2, b1, b2], top_blk p7, idle p7,
              [mem w7 (curr_of 0x1000), mem w7 (0x1038 + PTR), mem w7 (0x10B8 + PTR)],
              0x1000 \<in> all_blks p8, heap w8, c1, c2) }
   = Some ([0x1040, 0x10C0, 0x2040, 0x20C0], 0x2000, [],
           [0x1038, 0x10B8, 0],
           True, [(0x2000, 320), (0x1000, 320)], 0x20C0, 0x1040)"
  by (simp add: cfg64_eq ops)

subsection \<open>C3: \<^verbatim>\<open>cleanup\<close>\<close>

text \<open>
  C3 says that \<^verbatim>\<open>cleanup\<close> recycles every chunk of the cross-owner queue as \<^verbatim>\<open>destruct\<close> does,
  so that a block that was full is put back at the head of the available chain. The loop of
  \<^verbatim>\<open>cleanup\<close> calls \<^verbatim>\<open>block::set\<close>, not \<^verbatim>\<open>recycle\<close>. Here pool \<open>A\<close> fills its block
  \<open>0x1000\<close> (so \<open>top\<close> is null) and pool \<open>B\<close> destructs the first object: its chunk \<open>0x1038\<close>
  is in \<open>A\<close>'s queue. After \<open>A\<close>'s \<^verbatim>\<open>cleanup\<close> the queue is empty and the chunk is on the
  block's free list, but \<open>top\<close> is still null, and an allocation for which the backend has no
  memory returns null.
\<close>

theorem cleanup_leaves_block_detached:
  "do { (w1, x) \<leftarrow> construct (two_pools cfg64) poolA 0x1000;
        (w2, y) \<leftarrow> construct w1 poolA 0;
        p2 \<leftarrow> pools w2 poolA;
        w3 \<leftarrow> destruct w2 poolB x;
        p3 \<leftarrow> pools w3 poolA;
        w4 \<leftarrow> cleanup w3 poolA;
        p4 \<leftarrow> pools w4 poolA;
        (w5, z) \<leftarrow> construct w4 poolA 0;
        Some (x, mem w2 (curr_of 0x1000), top_blk p2, gc p3,
              gc p4, mem w4 (curr_of 0x1000), top_blk p4, z) }
   = Some (0x1040, 0, 0, [0x1038], [], 0x1038, 0, 0)"
  by (simp add: cfg64_eq ops)

subsection \<open>C4: null pointers\<close>

text \<open>
  C4 says that a null pointer given to \<^verbatim>\<open>destruct\<close>, \<^verbatim>\<open>release\<close> or \<^verbatim>\<open>block::set\<close> is ignored.
  That holds for \<^verbatim>\<open>destruct\<close> and \<^verbatim>\<open>block::set\<close>, in every world. \<^verbatim>\<open>release\<close> has no such
  test: it reads the back-reference at \<^verbatim>\<open>in - sizeof(void*)\<close>, which for a null pointer is the
  last word of the address space, and faults.
\<close>

theorem release_null_faults:
  "destruct w this 0 = Some w \<and> block_set w b 0 = Some w \<and>
   do { (w1, x) \<leftarrow> construct (two_pools cfg64) poolA 0x1000; release w1 0 } = None"
  by (simp add: destruct_def block_set_def cfg64_eq ops)

subsection \<open>C5: order of reuse\<close>

text \<open>
  C5 says that after allocating \<open>A\<close> then \<open>B\<close> from a block with at least two free chunks and
  destructing \<open>B\<close> then \<open>A\<close>, the next allocations return \<open>B\<close>'s address before \<open>A\<close>'s. The
  free list is a stack: \<^verbatim>\<open>block::set\<close> pushes at the head and \<^verbatim>\<open>block::get\<close> pops the head,
  so the chunk destructed last, \<open>A\<close>'s, comes back first. In pool \<open>A\<close> (alignment 64) the
  allocations return \<open>0x1040\<close> then \<open>0x10C0\<close>, and after the two deallocations the next one
  returns \<open>0x1040\<close> again, not \<open>0x10C0\<close>.
\<close>

theorem lifo_claimed_order_fails:
  "do { (w1, a) \<leftarrow> construct (two_pools cfg64) poolA 0x1000;
        (w2, b) \<leftarrow> construct w1 poolA 0;
        w3 \<leftarrow> destruct w2 poolA b;
        w4 \<leftarrow> destruct w3 poolA a;
        (w5, c) \<leftarrow> construct w4 poolA 0;
        Some (a, b, c, c = b) }
   = Some (0x1040, 0x10C0, 0x1040, False)"
  by (simp add: cfg64_eq ops)

text \<open>
  C5 as amended: if the \<open>top\<close> block of a pool has at least two free chunks \<open>c0\<close> and \<open>c1\<close>
  at the head of its free list (\<open>two_free\<close>), then two allocations return \<open>A = c0 + 8\<close> and
  \<open>B = c1 + 8\<close>, and after \<open>destruct B\<close> and \<open>destruct A\<close> the next two allocations return
  \<open>A\<close>'s address and then \<open>B\<close>'s; none of the six calls faults and none asks the backend for
  memory (the result does not depend on \<open>fresh\<close>).
\<close>

theorem lifo_reuse:
  assumes "two_free w this b c0 c1"
  shows "do { (w1, x) \<leftarrow> construct w this fresh;
              (w2, y) \<leftarrow> construct w1 this fresh;
              w3 \<leftarrow> destruct w2 this y;
              w4 \<leftarrow> destruct w3 this x;
              (w5, c) \<leftarrow> construct w4 this fresh;
              (w6, d) \<leftarrow> construct w5 this fresh;
              Some (x, y, c, d) }
         = Some (c0 + PTR, c1 + PTR, c0 + PTR, c1 + PTR)"
proof -
  from assms obtain p where P: "pools w this = Some p" "top_blk p = b" "gc p = []"
    by (auto simp: two_free_def split: option.splits)
  from assms have N: "b \<noteq> 0" "c0 \<noteq> 0" "c1 \<noteq> 0" "c0 + PTR \<noteq> 0" "c1 + PTR \<noteq> 0"
    by (simp_all add: two_free_def)
  from assms have V: "in_heap (heap w) (from_of b)" "in_heap (heap w) (curr_of b)"
      "in_heap (heap w) (next_of b)" "in_heap (heap w) (prev_of b)"
      "in_heap (heap w) c0" "in_heap (heap w) (c0 + PTR)"
      "in_heap (heap w) c1" "in_heap (heap w) (c1 + PTR)"
    by (simp_all add: two_free_def load_def split: if_splits)
  from assms have M: "mem w (from_of b) = this" "mem w (curr_of b) = c0" "mem w c0 = b"
      "mem w (c0 + PTR) = c1" "mem w c1 = b"
    by (simp_all add: two_free_def load_def split: if_splits)
  from assms have D: "distinct [from_of b, curr_of b, next_of b, prev_of b, c0, c0 + PTR, c1, c1 + PTR]"
    by (simp add: two_free_def)
  then have D': "distinct [from_of b, curr_of b, c0, c0 + PTR, c1, c1 + PTR]"
    by simp
  show ?thesis
  proof (cases "mem w (c1 + PTR) = 0")
    case False
    from lifo_three_free [OF P N(1-3) False N(4,5) V(1,2,5-8) M refl D']
    show ?thesis .
  next
    case last: True
    show ?thesis
    proof (cases "mem w (next_of b) = 0")
      case True
      from lifo_two_free_single [OF P N V M last D True]
      show ?thesis .
    next
      case False
      with assms have L: "in_heap (heap w) (prev_of (mem w (next_of b)))"
        "mem w (prev_of (mem w (next_of b))) = b"
        "prev_of (mem w (next_of b)) \<notin>
           set [from_of b, curr_of b, next_of b, prev_of b, c0, c0 + PTR, c1, c1 + PTR]"
        by (simp_all add: two_free_def load_def split: if_splits)
      from lifo_two_free_chained [OF P N V M last D refl False L]
      show ?thesis .
    qed
  qed
qed

theorem lifo_reuse_witness:
  "two_free one_block poolA 0x1000 0x1038 0x10B8 \<and>
   do { (w1, x) \<leftarrow> construct one_block poolA 0;
        (w2, y) \<leftarrow> construct w1 poolA 0;
        w3 \<leftarrow> destruct w2 poolA y;
        w4 \<leftarrow> destruct w3 poolA x;
        (w5, c) \<leftarrow> construct w4 poolA 0;
        (w6, d) \<leftarrow> construct w5 poolA 0;
        Some (x, y, c, d) }
   = Some (0x1040, 0x10C0, 0x1040, 0x10C0)"
proof -
  have h: "two_free one_block poolA 0x1000 0x1038 0x10B8"
    by (simp add: two_free_def one_block_def cfg64_eq load_def poolA_def
          from_of_def curr_of_def next_of_def prev_of_def PTR_def)
  from lifo_reuse [OF h, of 0] h show ?thesis
    by (simp add: PTR_def)
qed

subsection \<open>C6: allocation failure\<close>

text \<open>
  C6: when \<^verbatim>\<open>construct\<close> has to allocate a block (\<open>top\<close> is null, the idle queue and the
  cross-owner queue are empty) and the raw memory backend returns null, \<^verbatim>\<open>construct\<close> returns
  null and the world is the one before the call: memory, live allocations and every member of
  every pool, so no block has entered \<^verbatim>\<open>all\<close>, the chain or a queue.
\<close>

theorem construct_backend_failure:
  assumes "pools w this = Some p" "top_blk p = 0" "idle p = []" "gc p = []"
  shows "construct w this 0 = Some (w, 0)"
proof -
  have "p\<lparr>top_blk := 0\<rparr> = p\<lparr>top_blk := top_blk p\<rparr>"
    using assms(2) by simp
  then have "p\<lparr>top_blk := 0\<rparr> = p"
    by simp
  moreover have "(pools w)(this := Some p) = pools w"
    using assms(1) by (simp add: fun_upd_idem)
  ultimately have "put_pool w this (p\<lparr>top_blk := 0\<rparr>) = w"
    by (simp add: put_pool_def)
  then show ?thesis
    using assms by (simp add: construct_def pool_setup_def)
qed

theorem construct_backend_failure_witness:
  "pools (two_pools cfg64) poolA = Some cfg64 \<and> top_blk cfg64 = 0 \<and> idle cfg64 = [] \<and>
   gc cfg64 = [] \<and> construct (two_pools cfg64) poolA 0 = Some (two_pools cfg64, 0)"
proof -
  have h: "pools (two_pools cfg64) poolA = Some cfg64"
    by (simp add: two_pools_def poolA_def poolB_def)
  have t: "top_blk cfg64 = 0" and i: "idle cfg64 = []" and g: "gc cfg64 = []"
    by (simp_all add: cfg64_eq)
  from construct_backend_failure [OF h t i g] h t i g show ?thesis
    by simp
qed

subsection \<open>C7: no double issue\<close>

text \<open>
  C7 says that two consecutive calls of \<^verbatim>\<open>construct\<close> never return the same address. With an
  alignment of 16 the first chunk is laid at \<^verbatim>\<open>this + 16 - 8\<close>, on the \<^verbatim>\<open>curr\<close> field of the
  block header: writing the chunk's back-reference sets \<open>curr\<close> to the block itself, and
  \<^verbatim>\<open>block::get\<close> then reads the next free chunk from \<open>curr\<close> again. Every allocation returns
  the address 8 bytes into the block.
\<close>

theorem construct_twice_same_address:
  "do { (w1, x) \<leftarrow> construct (two_pools cfg16) poolA 0x1000;
        (w2, y) \<leftarrow> construct w1 poolA 0;
        (w3, z) \<leftarrow> construct w2 poolA 0;
        Some (x, y, z) }
   = Some (0x1008, 0x1008, 0x1008)"
  by (simp add: cfg16_eq ops)

subsection \<open>C8: the back-reference\<close>

text \<open>Apart from the layout, the pointer that \<^verbatim>\<open>release\<close> leaves in the queue (see C1) comes
  out of \<^verbatim>\<open>construct\<close> one pointer further: with an alignment of 64, pool \<open>A\<close> fills its
  block, \<open>x = 0x1040\<close> is released, and the next allocation returns \<open>0x1048\<close>, which is not
  a multiple of 64 and has in front of it not the address of a block but the first word of
  the released object.\<close>

lemma construct_after_release:
  "do { (w1, x) \<leftarrow> construct (two_pools cfg64) poolA 0x1000;
        (w2, y) \<leftarrow> construct w1 poolA 0;
        w3 \<leftarrow> release w2 x;
        (w4, z) \<leftarrow> construct w3 poolA 0;
        Some (x, y, z, unat z mod 64, mem w4 (z - PTR)) }
   = Some (0x1040, 0x10C0, 0x1048, 8, 0x10B8)"
  by (simp add: cfg64_eq ops)

text \<open>
  C8 says that the back-reference before an allocated object always names its block. With
  the alignment 32 of the header's example the first chunk is laid at \<^verbatim>\<open>this + 32 - 8\<close>: its
  back-reference is the \<^verbatim>\<open>prev\<close> field of the block header. Here pool \<open>A\<close> allocates \<open>x\<close> and
  \<open>y\<close> (the block is full) and destructs \<open>y\<close>: \<^verbatim>\<open>recycle\<close> puts the block back as \<open>top\<close> and
  sets its \<^verbatim>\<open>prev\<close> to null. The back-reference of \<open>x\<close>, still allocated, is null, and
  destructing \<open>x\<close> faults.
\<close>

theorem back_reference_overwritten:
  "do { (w1, x) \<leftarrow> construct (two_pools cfg32) poolA 0x1000;
        (w2, y) \<leftarrow> construct w1 poolA 0;
        w3 \<leftarrow> destruct w2 poolA y;
        Some (x, y, x - PTR = prev_of 0x1000, mem w2 (x - PTR), mem w3 (x - PTR),
              destruct w3 poolA x = None) }
   = Some (0x1020, 0x10A0, True, 0x1000, 0, True)"
  by (simp add: cfg32_eq ops)

subsection \<open>C9: alignment\<close>

text \<open>
  C9 says that every address \<^verbatim>\<open>construct\<close> returns is a multiple of \<open>ALIGNMENT\<close> and that
  the header is padded so that no chunk's data overlaps it. With an alignment of 16 the
  block at \<open>0x1000\<close> (a multiple of 16) gives out \<open>0x1008\<close>: not a multiple of 16, and inside
  the 32 bytes of the block header.
\<close>

theorem construct_misaligned_in_header:
  "do { (w1, x) \<leftarrow> construct (two_pools cfg16) poolA 0x1000;
        p1 \<leftarrow> pools w1 poolA;
        Some (x, unat (ALIGNMENT p1), unat (top_blk p1) mod unat (ALIGNMENT p1),
              unat x mod unat (ALIGNMENT p1),
              unat x < unat (top_blk p1) + unat SIZEOF_BLOCK) }
   = Some (0x1008, 16, 0, 8, True)"
  by (simp add: cfg16_eq ops)

subsection \<open>C10: blocks of the available chain have a free chunk\<close>

text \<open>
  C10 says that whenever \<open>top\<close> is not null its \<open>curr\<close> is not null, so that \<^verbatim>\<open>top->get()\<close> in
  \<^verbatim>\<open>construct\<close> never returns null. With an alignment of 8 the first chunks are laid over the
  block header (\<^verbatim>\<open>this + 8 - 8\<close>), and the \<^verbatim>\<open>next\<close> field of the block ends up holding the
  block's own address. After three allocations the free list is empty and \<^verbatim>\<open>construct\<close>
  advances \<open>top\<close> to \<^verbatim>\<open>top->next\<close>, the same block: \<open>top\<close> is not null, its \<open>curr\<close> is null,
  \<^verbatim>\<open>block::get\<close> on it returns null, and the next \<^verbatim>\<open>construct\<close> faults.
\<close>

theorem top_with_null_curr:
  "do { (w1, x) \<leftarrow> construct (two_pools cfg8) poolA 0x1000;
        (w2, y) \<leftarrow> construct w1 poolA 0;
        (w3, z) \<leftarrow> construct w2 poolA 0;
        p3 \<leftarrow> pools w3 poolA;
        Some ([x, y, z], top_blk p3, mem w3 (curr_of (top_blk p3)),
              map_option snd (block_get w3 (top_blk p3)),
              construct w3 poolA 0x2000 = None) }
   = Some ([0x1018, 0x1028, 0x1038], 0x1000, 0, Some 0, True)"
  by (simp add: cfg8_eq ops)

end
